theory Spec2Isabelle
  imports Complex_Main "HOL-Library.Sublist"
begin

section \<open>Numbers, points and Python primitives\<close>

text \<open>
  The via fence generator of RF-tools-KiCAD (\<^verbatim>\<open>viafence.py\<close>, \<^verbatim>\<open>viafence_action.py\<close>)
  computes with Python integers and Python floats. Integers are modelled as \<^typ>\<open>int\<close>,
  floats as \<^typ>\<open>real\<close>: arithmetic is exact, so rounding error of the IEEE operations is
  outside the model. A point \<^verbatim>\<open>[x, y]\<close> is a pair, a path or a polygon a list of points.
  Every \<^verbatim>\<open>raise\<close> of the interpreter that the code can reach is a value \<open>Inl e\<close>.
\<close>

datatype error = IndexError | ZeroDivisionError

type_synonym point = "real \<times> real"
type_synonym path = "point list"

text \<open>The subscript \<^verbatim>\<open>xs[i]\<close>: from the front for \<open>i \<ge> 0\<close>, from the back for \<open>i < 0\<close>, else \<^verbatim>\<open>IndexError\<close>.\<close>

definition py_get :: "'a list \<Rightarrow> int \<Rightarrow> error + 'a" where
  "py_get xs i =
     (if 0 \<le> i \<and> i < int (length xs) then Inr (xs ! nat i)
      else if i < 0 \<and> - int (length xs) \<le> i then Inr (xs ! nat (int (length xs) + i))
      else Inl IndexError)"

text \<open>\<^verbatim>\<open>int(x)\<close> on a float truncates toward zero.\<close>

definition py_int :: "real \<Rightarrow> int" where
  "py_int v = (if 0 \<le> v then \<lfloor>v\<rfloor> else \<lceil>v\<rceil>)"

text \<open>\<^verbatim>\<open>round(x)\<close> on a float rounds to the nearest integer, ties to the even one.\<close>

definition py_round :: "real \<Rightarrow> int" where
  "py_round v =
     (let f = \<lfloor>v\<rfloor>; d = v - of_int f
      in if d < 1 / 2 then f else if 1 / 2 < d then f + 1 else if even f then f else f + 1)"

text \<open>\<^verbatim>\<open>math.hypot\<close> and \<^verbatim>\<open>math.atan2\<close> (result in \<open>(-\<pi>, \<pi>]\<close>).\<close>

definition hypot :: "real \<Rightarrow> real \<Rightarrow> real" where
  "hypot a b = sqrt (a * a + b * b)"

definition atan2 :: "real \<Rightarrow> real \<Rightarrow> real" where
  "atan2 b a =
     (if 0 < a then arctan (b / a)
      else if a < 0 then (if 0 \<le> b then arctan (b / a) + pi else arctan (b / a) - pi)
      else if 0 < b then pi / 2
      else if b < 0 then - (pi / 2)
      else 0)"

section \<open>Arc discretizer\<close>

text \<open>
  \<^verbatim>\<open>calculate_adaptive_segments(radius, arc_angle, max_deviation_mm=0.1, min_segments=16)\<close>.
  The body of the \<^verbatim>\<open>try\<close> divides by a positive radius only and calls \<^verbatim>\<open>math.acos\<close> on
  a value clamped to \<open>[-1, 1]\<close>; its \<^verbatim>\<open>except\<close> branch returns \<^verbatim>\<open>min_segments\<close> as well.
\<close>

definition calculate_adaptive_segments :: "real \<Rightarrow> real \<Rightarrow> real \<Rightarrow> int \<Rightarrow> int" where
  "calculate_adaptive_segments radius arc_angle max_deviation_mm min_segments =
     (if radius \<le> 0 \<or> arc_angle \<le> 0 then min_segments
      else
        let max_dev0 = (if radius > 100000 then max_deviation_mm * 1000000
                        else max_deviation_mm * 10000);
            max_dev = min max_dev0 (radius * (1 / 2))
        in if max_dev \<ge> radius \<or> max_dev \<le> 0 then min_segments
           else
             let cos_val = max (- 1) (min 1 (1 - max_dev / radius));
                 angle_per_segment = 2 * arccos cos_val
             in if angle_per_segment \<le> 0 then min_segments
                else
                  let segments = \<lceil>arc_angle / angle_per_segment\<rceil>
                  in max min_segments (min segments 200))"

section \<open>Clearance predicates\<close>

record wxPoint =
  pt_x :: int
  pt_y :: int

record track =
  track_start :: wxPoint
  track_end :: wxPoint
  track_width :: int

record pad =
  pad_position :: wxPoint
  pad_size :: wxPoint

record via =
  via_position :: wxPoint
  via_width :: int

definition distance :: "wxPoint \<Rightarrow> wxPoint \<Rightarrow> real" where
  "distance p1 p2 =
     hypot (real_of_int (pt_y p1 - pt_y p2)) (real_of_int (pt_x p1 - pt_x p2))"

definition point_segment_distance :: "wxPoint \<Rightarrow> wxPoint \<Rightarrow> wxPoint \<Rightarrow> real" where
  "point_segment_distance pnt start endp =
     (let dx = pt_x endp - pt_x start;
          dy = pt_y endp - pt_y start
      in if dx = 0 \<and> dy = 0 then distance pnt start
         else
           let t0 = real_of_int ((pt_x pnt - pt_x start) * dx + (pt_y pnt - pt_y start) * dy)
                      / real_of_int (dx * dx + dy * dy);
               t = max 0 (min 1 t0);
               cx = real_of_int (pt_x start) + t * real_of_int dx;
               cy = real_of_int (pt_y start) + t * real_of_int dy
           in hypot (real_of_int (pt_x pnt) - cx) (real_of_int (pt_y pnt) - cy))"

definition to_wxPoint :: "point \<Rightarrow> wxPoint" where
  "to_wxPoint v = \<lparr>pt_x = py_int (fst v), pt_y = py_int (snd v)\<rparr>"

definition via_track_overlaps :: "point \<Rightarrow> real \<Rightarrow> track \<Rightarrow> real \<Rightarrow> bool" where
  "via_track_overlaps via_pos via_diam trk clearance =
     (let via_pt = to_wxPoint via_pos;
          start = track_start trk;
          endp = track_end trk;
          track_half = real_of_int (track_width trk) / 2;
          via_radius = via_diam / 2;
          d = point_segment_distance via_pt start endp;
          tol = via_diam * (1 / 10)
      in d < track_half + via_radius + clearance + tol)"

definition via_pad_overlaps :: "point \<Rightarrow> real \<Rightarrow> pad \<Rightarrow> real \<Rightarrow> bool" where
  "via_pad_overlaps via_pos via_diam pd clearance =
     (let via_pt = to_wxPoint via_pos;
          pad_center = pad_position pd;
          sz = pad_size pd;
          pad_rx = real_of_int (pt_x sz) / 2;
          pad_ry = real_of_int (pt_y sz) / 2;
          pad_radius = hypot pad_rx pad_ry;
          via_radius = via_diam / 2;
          d = distance via_pt pad_center;
          tol = via_diam * (5 / 100)
      in d < pad_radius + via_radius + clearance + tol)"

definition via_via_overlaps :: "point \<Rightarrow> real \<Rightarrow> via \<Rightarrow> real \<Rightarrow> bool" where
  "via_via_overlaps via_pos new_via_diam existing_via clearance =
     (let center2 = via_position existing_via;
          via_pt = to_wxPoint via_pos;
          r_new = new_via_diam / 2;
          r_old = real_of_int (via_width existing_via) / 2;
          d = distance via_pt center2;
          tol = new_via_diam * (5 / 100)
      in d < r_new + r_old + clearance + tol)"

section \<open>Pre-filter deduplication\<close>






section \<open>Path primitives\<close>

text \<open>List comprehensions whose body can raise stop at the first error.\<close>

primrec map_err :: "('a \<Rightarrow> error + 'b) \<Rightarrow> 'a list \<Rightarrow> error + 'b list" where
  "map_err f [] = Inr []"
| "map_err f (a # as) =
     (case f a of Inl e \<Rightarrow> Inl e
      | Inr b \<Rightarrow> (case map_err f as of Inl e \<Rightarrow> Inl e | Inr bs \<Rightarrow> Inr (b # bs)))"

definition getLineSlope :: "point \<Rightarrow> point \<Rightarrow> real" where
  \<comment> \<open>\<^verbatim>\<open>getLineSlope([a, b])\<close>; every call site builds the two-element list itself.\<close>
  "getLineSlope a b = atan2 (snd a - snd b) (fst a - fst b)"

definition lineLength :: "point \<Rightarrow> point \<Rightarrow> real" where
  "lineLength a b = hypot (fst a - fst b) (snd a - snd b)"

definition getLineLength :: "path \<Rightarrow> error + real" where
  \<comment> \<open>\<^verbatim>\<open>getLineLength(line)\<close> reads \<^verbatim>\<open>line[0]\<close> and \<^verbatim>\<open>line[1]\<close> only.\<close>
  "getLineLength line =
     (case py_get line 0 of Inl e \<Rightarrow> Inl e
      | Inr a \<Rightarrow> (case py_get line 1 of Inl e \<Rightarrow> Inl e | Inr b \<Rightarrow> Inr (lineLength a b)))"

definition getSubPath :: "'a list \<Rightarrow> int \<times> int \<Rightarrow> error + 'a list" where
  "getSubPath pth pathSpec =
     (let listModulus = int (length pth);
          stop = (if snd pathSpec < fst pathSpec then snd pathSpec + listModulus
                  else snd pathSpec)
      in map_err (\<lambda>i. if listModulus = 0 then Inl ZeroDivisionError
                       else py_get pth (i mod listModulus))
           [fst pathSpec .. stop])"

definition getSubPaths :: "'a list \<Rightarrow> (int \<times> int) list \<Rightarrow> error + 'a list list" where
  "getSubPaths pth pathSpecList =
     map_err (getSubPath pth) (filter (\<lambda>pathSpec. fst pathSpec \<noteq> snd pathSpec) pathSpecList)"

definition splitPathByPoints :: "'a list \<Rightarrow> int list \<Rightarrow> error + 'a list list" where
  "splitPathByPoints pth splitList =
     getSubPaths pth
       (map (\<lambda>item. (splitList ! item, splitList ! (item + 1))) [0 ..< length splitList - 1])"

definition splitPathByPaths :: "'a list \<Rightarrow> (int \<times> int) list \<Rightarrow> error + 'a list list" where
  \<comment> \<open>an entry \<^verbatim>\<open>[fromIdx, toIdx]\<close> of \<^verbatim>\<open>splitList\<close> is a pair: \<^verbatim>\<open>[-1]\<close> is \<open>snd\<close>, \<^verbatim>\<open>[0]\<close> is \<open>fst\<close>.\<close>
  "splitPathByPaths pth splitList =
     getSubPaths pth
       (map (\<lambda>item. (snd (splitList ! item),
                      fst (splitList ! ((item + 1) mod length splitList))))
          [0 ..< length splitList])"

text \<open>
  \<^verbatim>\<open>getPathCumDist\<close>: the loop appends, for each vertex after the first, the last entry
  plus the length of the segment from the previous vertex.
\<close>

fun cumDist_loop :: "real \<Rightarrow> point \<Rightarrow> path \<Rightarrow> real list" where
  "cumDist_loop acc prev [] = []"
| "cumDist_loop acc prev (p # ps) =
     (let d = acc + lineLength p prev in d # cumDist_loop d p ps)"

definition getPathCumDist :: "path \<Rightarrow> real list" where
  "getPathCumDist pth = (case pth of [] \<Rightarrow> [0] | p # ps \<Rightarrow> 0 # cumDist_loop 0 p ps)"

definition deviationAngle :: "path \<Rightarrow> nat \<Rightarrow> real" where
  \<comment> \<open>the three lines computing \<^verbatim>\<open>deviationAngle\<close>, shared by the next two functions\<close>
  "deviationAngle pth idx =
     (let prevSlope = getLineSlope (pth ! (idx + 1)) (pth ! idx);
          nextSlope = getLineSlope (pth ! (idx - 1)) (pth ! idx)
      in \<bar>prevSlope - nextSlope\<bar> - pi)"

definition getPathVertices :: "path \<Rightarrow> real \<Rightarrow> int list" where
  "getPathVertices pth angleTolerance =
     (let tol = angleTolerance * pi / 180
      in map int (filter (\<lambda>vertexIdx. \<bar>deviationAngle pth vertexIdx\<bar> > tol)
                    [1 ..< length pth - 1]))"

definition filterSharpJunctions :: "path \<Rightarrow> int list \<Rightarrow> int list" where
  "filterSharpJunctions pth vertexIndices =
     (if length vertexIndices < 2 then vertexIndices
      else
        let sharp_angle_rad = 85 * pi / 180
        in filter (\<lambda>idx. idx \<le> 0 \<or> idx \<ge> int (length pth) - 1
                          \<or> \<bar>deviationAngle pth (nat idx)\<bar> < sharp_angle_rad)
             vertexIndices)"

definition isPointOnLine :: "point \<Rightarrow> point \<Rightarrow> point \<Rightarrow> bool" where
  \<comment> \<open>\<^verbatim>\<open>isPointOnLine(point, [l0, l1])\<close>\<close>
  "isPointOnLine pnt l0 l1 =
     (let cross = (snd l1 - snd pnt) * (fst l0 - fst pnt)
                  - (fst l1 - fst pnt) * (snd l0 - snd pnt)
      in ((fst l0 \<le> fst pnt \<and> fst pnt \<le> fst l1) \<or> (fst l1 \<le> fst pnt \<and> fst pnt \<le> fst l0))
         \<and> ((snd l0 \<le> snd pnt \<and> snd pnt \<le> snd l1) \<or> (snd l1 \<le> snd pnt \<and> snd pnt \<le> snd l0))
         \<and> cross = 0)"

definition getPathsThroughPoints :: "path \<Rightarrow> point list \<Rightarrow> (int \<times> int) list" where
  "getPathsThroughPoints pth pointList =
     map (\<lambda>vertexIdx. (int vertexIdx, int ((vertexIdx + 1) mod length pth)))
       (filter (\<lambda>vertexIdx.
                  list_ex (\<lambda>pnt. isPointOnLine pnt (pth ! vertexIdx)
                                    (pth ! ((vertexIdx + 1) mod length pth)))
                    pointList)
          [0 ..< length pth])"

section \<open>Interpolation along a path\<close>

text \<open>
  \<^verbatim>\<open>bisect_left\<close> of the Python standard library, by its contract on a sorted list: the
  number of entries smaller than \<open>v\<close>. Cumulative distance vectors are sorted.
\<close>

definition bisect_left :: "real list \<Rightarrow> real \<Rightarrow> nat" where
  "bisect_left a v = length (takeWhile (\<lambda>e. e < v) a)"

record LinearInterpolator =
  x_list :: "real list"
  y_list :: "real list"
  slopes :: "real list"

text \<open>
  The slopes over \<^verbatim>\<open>zip(x_list, x_list[1:], y_list, y_list[1:])\<close>; a float division by
  zero raises \<^verbatim>\<open>ZeroDivisionError\<close>.
\<close>

fun mk_slopes :: "real list \<Rightarrow> real list \<Rightarrow> error + real list" where
  "mk_slopes (x1 # x2 # xs) (y1 # y2 # ys) =
     (if x2 - x1 = 0 then Inl ZeroDivisionError
      else (case mk_slopes (x2 # xs) (y2 # ys) of Inl e \<Rightarrow> Inl e
            | Inr s \<Rightarrow> Inr ((y2 - y1) / (x2 - x1) # s)))"
| "mk_slopes xs ys = Inr []"

definition LinearInterpolator_init :: "real list \<Rightarrow> real list \<Rightarrow> error + LinearInterpolator" where
  "LinearInterpolator_init xl yl =
     (case mk_slopes xl yl of Inl e \<Rightarrow> Inl e
      | Inr s \<Rightarrow> Inr \<lparr>x_list = xl, y_list = yl, slopes = s\<rparr>)"

definition LinearInterpolator_call :: "LinearInterpolator \<Rightarrow> real \<Rightarrow> error + real" where
  "LinearInterpolator_call self v =
     (let i = int (bisect_left (x_list self) v) - 1
      in case py_get (y_list self) i of Inl e \<Rightarrow> Inl e
         | Inr yi \<Rightarrow>
             (case py_get (slopes self) i of Inl e \<Rightarrow> Inl e
              | Inr si \<Rightarrow>
                  (case py_get (x_list self) i of Inl e \<Rightarrow> Inl e
                   | Inr xi \<Rightarrow> Inr (yi + si * (v - xi)))))"

record PathInterpolator =
  xInterp :: LinearInterpolator
  yInterp :: LinearInterpolator

definition PathInterpolator_init :: "real list \<Rightarrow> path \<Rightarrow> error + PathInterpolator" where
  "PathInterpolator_init t pth =
     (case LinearInterpolator_init t (map fst pth) of Inl e \<Rightarrow> Inl e
      | Inr xi \<Rightarrow>
          (case LinearInterpolator_init t (map snd pth) of Inl e \<Rightarrow> Inl e
           | Inr yi \<Rightarrow> Inr \<lparr>xInterp = xi, yInterp = yi\<rparr>))"

definition PathInterpolator_call :: "PathInterpolator \<Rightarrow> real \<Rightarrow> error + point" where
  "PathInterpolator_call self t =
     (case LinearInterpolator_call (xInterp self) t of Inl e \<Rightarrow> Inl e
      | Inr px \<Rightarrow>
          (case LinearInterpolator_call (yInterp self) t of Inl e \<Rightarrow> Inl e
           | Inr py \<Rightarrow> Inr (px, py)))"

text \<open>Building the interpolator of a path over its own distance vector and calling it once.\<close>

definition interpolate :: "path \<Rightarrow> real \<Rightarrow> error + point" where
  "interpolate pth d =
     (case PathInterpolator_init (getPathCumDist pth) pth of Inl e \<Rightarrow> Inl e
      | Inr ptInterp \<Rightarrow> PathInterpolator_call ptInterp d)"

section \<open>Via distribution\<close>

definition distributeAlongPath :: "path \<Rightarrow> real \<Rightarrow> error + point list" where
  "distributeAlongPath pth minimumSpacing =
     (let distList = getPathCumDist pth
      in if minimumSpacing = 0 then Inl ZeroDivisionError
         else
           let nPoints = \<lfloor>last distList / minimumSpacing\<rfloor>
           in case PathInterpolator_init distList pth of Inl e \<Rightarrow> Inl e
              | Inr ptInterp \<Rightarrow>
                  map_err (\<lambda>ptIdx. PathInterpolator_call ptInterp
                                     (real_of_int ptIdx * last distList / real_of_int nPoints))
                    [1 .. nPoints - 1])"

section \<open>Fence extraction and generation\<close>

text \<open>
  The polygon operations come from the pyclipper library; they are parameters of the
  model: the offset of a path list (\<^verbatim>\<open>PyclipperOffset.Execute\<close> with round joins and
  open round ends), the union and the difference of closed polygons
  (\<^verbatim>\<open>Pyclipper.Execute\<close>) and \<^verbatim>\<open>PointInPolygon\<close>, which answers 1 for a point
  inside. The diagnostic callback \<^verbatim>\<open>verbose\<close> (by default a function that does
  nothing) is left out.
\<close>

record pyclipper =
  Offset_Execute :: "path list \<Rightarrow> real \<Rightarrow> path list"
  Union_Execute :: "path list \<Rightarrow> path list"
  Difference_Execute :: "path \<Rightarrow> path list \<Rightarrow> path list"
  PointInPolygon :: "point \<Rightarrow> path \<Rightarrow> int"

definition expandPathsToPolygons :: "pyclipper \<Rightarrow> path list \<Rightarrow> real \<Rightarrow> path list" where
  "expandPathsToPolygons cl pathList offset = Offset_Execute cl pathList offset"

definition clipPolygonWithPolygons :: "pyclipper \<Rightarrow> path \<Rightarrow> path list \<Rightarrow> path list" where
  "clipPolygonWithPolygons cl pth clipPathList = Difference_Execute cl pth clipPathList"

definition unionPolygons :: "pyclipper \<Rightarrow> path list \<Rightarrow> path list" where
  "unionPolygons cl pathList = Union_Execute cl pathList"

definition isPointInPolygon :: "pyclipper \<Rightarrow> point \<Rightarrow> path \<Rightarrow> bool" where
  "isPointInPolygon cl pnt pth = (PointInPolygon cl pnt pth = 1)"

definition getPathsInsidePolygon :: "pyclipper \<Rightarrow> path list \<Rightarrow> path \<Rightarrow> path list" where
  "getPathsInsidePolygon cl pathList polygon =
     filter (\<lambda>pth. list_all (\<lambda>vertex. isPointInPolygon cl vertex polygon) pth) pathList"

text \<open>
  \<^verbatim>\<open>getLeafVertices\<close>: for each path its first vertex (index 0, neighbour 1) and its last
  vertex (index -1, neighbour -2), kept when it occurs once among all vertices.
\<close>

definition leafVertex_at :: "point list \<Rightarrow> path \<Rightarrow> int \<Rightarrow> error + (point \<times> real) list" where
  "leafVertex_at allVertices pth vertexIdx =
     (case py_get pth vertexIdx of Inl e \<Rightarrow> Inl e
      | Inr leafVertex \<Rightarrow>
          if count_list allVertices leafVertex = 1
          then (case py_get pth (if vertexIdx = 0 then 1 else - 2) of Inl e \<Rightarrow> Inl e
                | Inr neighbourVertex \<Rightarrow>
                    Inr [(leafVertex, getLineSlope neighbourVertex leafVertex)])
          else Inr [])"

definition getLeafVertices :: "path list \<Rightarrow> error + (point list \<times> real list)" where
  "getLeafVertices pathList =
     (let allVertices = concat pathList
      in case map_err (\<lambda>(pth, vertexIdx). leafVertex_at allVertices pth vertexIdx)
                (concat (map (\<lambda>pth. [(pth, 0), (pth, - 1)]) pathList))
         of Inl e \<Rightarrow> Inl e
          | Inr found \<Rightarrow> Inr (map fst (concat found), map snd (concat found)))"

definition transformVertices :: "point list \<Rightarrow> point \<Rightarrow> real \<Rightarrow> point list" where
  "transformVertices vertexList offset angle =
     map (\<lambda>vertex.
            (real_of_int (py_round (fst offset + cos angle * fst vertex - sin angle * snd vertex)),
             real_of_int (py_round (snd offset + sin angle * fst vertex + cos angle * snd vertex))))
       vertexList"

definition trimFlushPolygonAtVertices ::
    "pyclipper \<Rightarrow> path \<Rightarrow> point list \<Rightarrow> real list \<Rightarrow> real \<Rightarrow> path list" where
  "trimFlushPolygonAtVertices cl pth vertexList vertexSlopes radius =
     (let const = 414 / 1000;
          trimPoly = [(0, - radius), (0, 0), (0, radius), (- const * radius, radius),
                      (- radius, const * radius), (- radius, - const * radius),
                      (- const * radius, - radius)];
          trimPolys = map (\<lambda>(vertexPos, vertexSlope). transformVertices trimPoly vertexPos vertexSlope)
                        (zip vertexList vertexSlopes)
      in clipPolygonWithPolygons cl pth (unionPolygons cl trimPolys))"

text \<open>
  The body of the inner loop of \<^verbatim>\<open>generateViaFence\<close>: the candidates of one fence
  path, its fixed points first, then the points distributed on each sub-path.
\<close>

definition viaPointsOnFencePath :: "path \<Rightarrow> real \<Rightarrow> error + point list" where
  "viaPointsOnFencePath fencePath viaPitch =
     (let tolerance_degree = 20;
          bendPointIdxList = filterSharpJunctions fencePath
                               (getPathVertices fencePath tolerance_degree);
          fixPointIdxList = [0] @ bendPointIdxList @ [- 1]
      in case map_err (py_get fencePath) fixPointIdxList of Inl e \<Rightarrow> Inl e
         | Inr fixPointList \<Rightarrow>
             (case splitPathByPoints fencePath fixPointIdxList of Inl e \<Rightarrow> Inl e
              | Inr subPaths \<Rightarrow>
                  (case map_err (\<lambda>subPath. distributeAlongPath subPath viaPitch) subPaths
                   of Inl e \<Rightarrow> Inl e
                    | Inr placed \<Rightarrow> Inr (fixPointList @ concat placed))))"

text \<open>The body of the outer loop: the candidates that one offset polygon contributes.\<close>

definition viaPointsOnOffsetPoly ::
    "pyclipper \<Rightarrow> path list \<Rightarrow> real \<Rightarrow> real \<Rightarrow> path \<Rightarrow> error + point list" where
  "viaPointsOnOffsetPoly cl pathList viaOffset viaPitch offsetPoly =
     (let localPathList = getPathsInsidePolygon cl pathList offsetPoly
      in if length localPathList = 0 then Inr []
         else
           case getLeafVertices localPathList of Inl e \<Rightarrow> Inl e
           | Inr (leafVertexList, leafVertexAngles) \<Rightarrow>
               (case py_get (trimFlushPolygonAtVertices cl offsetPoly leafVertexList
                               leafVertexAngles (11 / 10 * viaOffset)) 0
                of Inl e \<Rightarrow> Inl e
                 | Inr trimmedPoly \<Rightarrow>
                     (let buttLineIdxList = getPathsThroughPoints trimmedPoly leafVertexList
                      in case splitPathByPaths trimmedPoly buttLineIdxList of Inl e \<Rightarrow> Inl e
                         | Inr fencePaths \<Rightarrow>
                             (case map_err (\<lambda>fencePath. viaPointsOnFencePath fencePath viaPitch)
                                     fencePaths
                              of Inl e \<Rightarrow> Inl e
                               | Inr placed \<Rightarrow> Inr (concat placed)))))"

text \<open>The first statement of \<^verbatim>\<open>generateViaFence\<close>, commented "Remove zero length tracks".\<close>

primrec removeZeroLength :: "path list \<Rightarrow> error + path list" where
  "removeZeroLength [] = Inr []"
| "removeZeroLength (pth # rest) =
     (case getLineLength pth of Inl e \<Rightarrow> Inl e
      | Inr len \<Rightarrow>
          (case removeZeroLength rest of Inl e \<Rightarrow> Inl e
           | Inr kept \<Rightarrow> Inr (if len > 0 then pth # kept else kept)))"

definition generateViaFence :: "pyclipper \<Rightarrow> path list \<Rightarrow> real \<Rightarrow> real \<Rightarrow> error + point list" where
  "generateViaFence cl pathList0 viaOffset viaPitch =
     (case removeZeroLength pathList0 of Inl e \<Rightarrow> Inl e
      | Inr pathList \<Rightarrow>
          (case map_err (viaPointsOnOffsetPoly cl pathList viaOffset viaPitch)
                  (expandPathsToPolygons cl pathList viaOffset)
           of Inl e \<Rightarrow> Inl e
            | Inr placed \<Rightarrow> Inr (concat placed)))"

text \<open>
  \<^verbatim>\<open>generateViaFenceMultiRow\<close>; \<^verbatim>\<open>rowSpacing\<close> is \<open>None\<close> when the caller leaves it out.
  In an odd row the source computes \<^verbatim>\<open>half_pitch\<close> and then assigns \<^verbatim>\<open>row_vias = row_vias\<close>.
\<close>

definition rowVias :: "pyclipper \<Rightarrow> path list \<Rightarrow> real \<Rightarrow> real \<Rightarrow> real \<Rightarrow> int \<Rightarrow> error + point list" where
  "rowVias cl pathList viaOffset viaPitch rowSpacing rowIdx =
     (let current_row_offset = viaOffset + real_of_int rowIdx * rowSpacing
      in case generateViaFence cl pathList current_row_offset viaPitch of Inl e \<Rightarrow> Inl e
         | Inr row_vias \<Rightarrow>
             if rowIdx mod 2 = 1
             then (let half_pitch = viaPitch / 2 in Inr row_vias)
             else Inr row_vias)"

definition generateViaFenceMultiRow ::
    "pyclipper \<Rightarrow> path list \<Rightarrow> real \<Rightarrow> real \<Rightarrow> int \<Rightarrow> real option \<Rightarrow> error + point list" where
  "generateViaFenceMultiRow cl pathList viaOffset viaPitch numRows rowSpacing0 =
     (if numRows \<le> 1 then generateViaFence cl pathList viaOffset viaPitch
      else
        let rowSpacing = (case rowSpacing0 of
                            None \<Rightarrow> real_of_int (py_int (viaPitch * (15 / 10)))
                          | Some r \<Rightarrow> r)
        in case map_err (rowVias cl pathList viaOffset viaPitch rowSpacing) [0 .. numRows - 1]
           of Inl e \<Rightarrow> Inl e
            | Inr rows \<Rightarrow> Inr (concat rows))"

section \<open>A stand-in for the polygon library\<close>

text \<open>
  For evaluating the generator on concrete inputs: a clipper that offsets an empty path
  list to no polygon and any other one to a fixed rectangle, returns the union of
  polygons unchanged, clips nothing away and finds every point inside.
\<close>

definition boxClipper :: pyclipper where
  "boxClipper =
     \<lparr>Offset_Execute = (\<lambda>pathList offset. if pathList = [] then []
                                          else [[(- 5, - 5), (15, - 5), (15, 5), (- 5, 5)]]),
      Union_Execute = (\<lambda>pathList. pathList),
      Difference_Execute = (\<lambda>pth clipPathList. [pth]),
      PointInPolygon = (\<lambda>pnt pth. 1)\<rparr>"

section \<open>Properties of the arc discretizer\<close>

text \<open>
  C8. The segment count is never below the configured floor and, whenever the floor is
  at most 200, never above the ceiling 200: with the default floor it lies between 16 and
  200. A degenerate arc (radius or swept angle not positive) gets exactly the floor.
\<close>

theorem calculate_adaptive_segments_clamped:
  "min_segments \<le> calculate_adaptive_segments radius arc_angle dev min_segments
   \<and> (min_segments \<le> 200 \<longrightarrow>
        calculate_adaptive_segments radius arc_angle dev min_segments \<le> 200)
   \<and> 16 \<le> calculate_adaptive_segments radius arc_angle dev 16
   \<and> calculate_adaptive_segments radius arc_angle dev 16 \<le> 200
   \<and> (radius \<le> 0 \<or> arc_angle \<le> 0 \<longrightarrow>
        calculate_adaptive_segments radius arc_angle dev min_segments = min_segments)"
  by (simp add: calculate_adaptive_segments_def Let_def)

theorem calculate_adaptive_segments_clamped_witness:
  "(16::int) \<le> 200 \<and> ((0::real) \<le> 0 \<or> (1::real) \<le> 0)
   \<and> calculate_adaptive_segments 0 1 (1 / 10) 16 = 16
   \<and> calculate_adaptive_segments 0 1 (1 / 10) 16 \<le> 200"
  using calculate_adaptive_segments_clamped [of 16 0 1 "1 / 10"] by simp

section \<open>Properties of the clearance predicates\<close>

text \<open>
  C7. Each overlap predicate is monotone in the clearance: an overlap reported at
  clearance \<open>c1\<close> is reported at every clearance \<open>c2 \<ge> c1\<close>.
\<close>

theorem overlaps_mono_clearance:
  assumes "c1 \<le> c2"
  shows "(via_track_overlaps v d trk c1 \<longrightarrow> via_track_overlaps v d trk c2)
       \<and> (via_pad_overlaps v d pd c1 \<longrightarrow> via_pad_overlaps v d pd c2)
       \<and> (via_via_overlaps v d ev c1 \<longrightarrow> via_via_overlaps v d ev c2)"
  using assms
  by (simp add: via_track_overlaps_def via_pad_overlaps_def via_via_overlaps_def Let_def)

theorem overlaps_mono_clearance_witness:
  "(0::real) \<le> 1
   \<and> via_track_overlaps (0, 0) 10 \<lparr>track_start = \<lparr>pt_x = 0, pt_y = 0\<rparr>, track_end = \<lparr>pt_x = 10, pt_y = 0\<rparr>, track_width = 2\<rparr> 0
   \<and> via_track_overlaps (0, 0) 10 \<lparr>track_start = \<lparr>pt_x = 0, pt_y = 0\<rparr>, track_end = \<lparr>pt_x = 10, pt_y = 0\<rparr>, track_width = 2\<rparr> 1
   \<and> via_pad_overlaps (0, 0) 10 \<lparr>pad_position = \<lparr>pt_x = 0, pt_y = 0\<rparr>, pad_size = \<lparr>pt_x = 0, pt_y = 0\<rparr>\<rparr> 0
   \<and> via_pad_overlaps (0, 0) 10 \<lparr>pad_position = \<lparr>pt_x = 0, pt_y = 0\<rparr>, pad_size = \<lparr>pt_x = 0, pt_y = 0\<rparr>\<rparr> 1
   \<and> via_via_overlaps (0, 0) 10 \<lparr>via_position = \<lparr>pt_x = 0, pt_y = 0\<rparr>, via_width = 10\<rparr> 0
   \<and> via_via_overlaps (0, 0) 10 \<lparr>via_position = \<lparr>pt_x = 0, pt_y = 0\<rparr>, via_width = 10\<rparr> 1"
proof -
  have h: "(0::real) \<le> 1" by simp
  have a: "via_track_overlaps (0, 0) 10 \<lparr>track_start = \<lparr>pt_x = 0, pt_y = 0\<rparr>, track_end = \<lparr>pt_x = 10, pt_y = 0\<rparr>, track_width = 2\<rparr> 0"
    by (simp add: via_track_overlaps_def point_segment_distance_def to_wxPoint_def py_int_def hypot_def Let_def)
  have b: "via_pad_overlaps (0, 0) 10 \<lparr>pad_position = \<lparr>pt_x = 0, pt_y = 0\<rparr>, pad_size = \<lparr>pt_x = 0, pt_y = 0\<rparr>\<rparr> 0"
    by (simp add: via_pad_overlaps_def distance_def to_wxPoint_def py_int_def hypot_def Let_def)
  have c: "via_via_overlaps (0, 0) 10 \<lparr>via_position = \<lparr>pt_x = 0, pt_y = 0\<rparr>, via_width = 10\<rparr> 0"
    by (simp add: via_via_overlaps_def distance_def to_wxPoint_def py_int_def hypot_def Let_def)
  show ?thesis
    using overlaps_mono_clearance [OF h, of "(0, 0)" 10
        "\<lparr>track_start = \<lparr>pt_x = 0, pt_y = 0\<rparr>, track_end = \<lparr>pt_x = 10, pt_y = 0\<rparr>, track_width = 2\<rparr>"
        "\<lparr>pad_position = \<lparr>pt_x = 0, pt_y = 0\<rparr>, pad_size = \<lparr>pt_x = 0, pt_y = 0\<rparr>\<rparr>"
        "\<lparr>via_position = \<lparr>pt_x = 0, pt_y = 0\<rparr>, via_width = 10\<rparr>"] h a b c by blast
qed

section \<open>Python primitives and path lengths\<close>

lemma py_get_0: "py_get (a # as) 0 = Inr a"
  by (simp add: py_get_def)


lemma py_get_nil: "py_get [] i = Inl IndexError"
  by (simp add: py_get_def)

lemma py_get_single_1: "py_get [a] 1 = Inl IndexError"
  by (simp add: py_get_def)

lemma lineLength_pos_iff: "0 < lineLength a b \<longleftrightarrow> a \<noteq> b"
  by (auto simp add: lineLength_def hypot_def sum_squares_gt_zero_iff prod_eq_iff)

lemma lineLength_nonneg: "0 \<le> lineLength a b"
  by (simp add: lineLength_def hypot_def)



lemma getPathCumDist_pair: "getPathCumDist [a, b] = [0, lineLength b a]"
  by (simp add: getPathCumDist_def)

lemma lineLength_sym: "lineLength a b = lineLength b a"
  by (simp add: lineLength_def hypot_def power2_commute[symmetric] algebra_simps)

lemma generateViaFence_no_polygon:
  "removeZeroLength pathList0 = Inr pathList \<Longrightarrow> Offset_Execute cl pathList viaOffset = [] \<Longrightarrow>
     generateViaFence cl pathList0 viaOffset viaPitch = Inr []"
  by (simp add: generateViaFence_def expandPathsToPolygons_def)

text \<open>
  C1. The rows of the multi-row generator are not staggered: every row, odd or even, is
  exactly the single-row result at that row's offset, and the output is the rows
  concatenated. With a row spacing of 0 the second row repeats the first one point by
  point, so the first candidates of rows 0 and 1 lie at the same distance along the
  fence and not half a pitch apart.
\<close>

theorem multirow_rows_unshifted:
  "rowVias cl pathList viaOffset viaPitch rowSpacing rowIdx
     = generateViaFence cl pathList (viaOffset + real_of_int rowIdx * rowSpacing) viaPitch
   \<and> generateViaFenceMultiRow cl pathList viaOffset viaPitch 2 (Some rowSpacing)
     = (case generateViaFence cl pathList viaOffset viaPitch of Inl e \<Rightarrow> Inl e
        | Inr row0 \<Rightarrow>
            (case generateViaFence cl pathList (viaOffset + rowSpacing) viaPitch of Inl e \<Rightarrow> Inl e
             | Inr row1 \<Rightarrow> Inr (row0 @ row1)))
   \<and> generateViaFenceMultiRow cl pathList viaOffset viaPitch 2 (Some 0)
     = (case generateViaFence cl pathList viaOffset viaPitch of Inl e \<Rightarrow> Inl e
        | Inr row0 \<Rightarrow> Inr (row0 @ row0))"
proof -
  have r: "\<And>rs i. rowVias cl pathList viaOffset viaPitch rs i
     = generateViaFence cl pathList (viaOffset + real_of_int i * rs) viaPitch"
    by (simp add: rowVias_def Let_def split: sum.splits)
  have u: "[0 .. (1::int)] = [0, 1]"
    by (simp add: upto.simps)
  show ?thesis
    by (simp add: r generateViaFenceMultiRow_def u split: sum.splits)
qed

lemma getPathsThroughPoints_empty:
  assumes "\<forall>v<length trimmed. \<forall>p\<in>set leafs.
             \<not> isPointOnLine p (trimmed ! v) (trimmed ! ((v + 1) mod length trimmed))"
  shows "getPathsThroughPoints trimmed leafs = []"
  using assms by (auto simp add: getPathsThroughPoints_def filter_empty_conv list_ex_iff)

lemma splitPathByPaths_nil: "splitPathByPaths pth [] = Inr []"
  by (simp add: splitPathByPaths_def getSubPaths_def)

text \<open>
  C10. When no edge of the trimmed offset polygon passes through a leaf vertex,
  \<^verbatim>\<open>getPathsThroughPoints\<close> returns the empty list, splitting yields no fence path and the
  polygon contributes no via candidate, without an error.
\<close>

theorem no_butt_line_no_candidates:
  assumes "getLeafVertices (getPathsInsidePolygon cl pathList offsetPoly) = Inr (leafs, angles)"
    and "trimFlushPolygonAtVertices cl offsetPoly leafs angles (11 / 10 * viaOffset) = trimmed # others"
    and "\<forall>v<length trimmed. \<forall>p\<in>set leafs.
             \<not> isPointOnLine p (trimmed ! v) (trimmed ! ((v + 1) mod length trimmed))"
  shows "getPathsThroughPoints trimmed leafs = []
       \<and> splitPathByPaths trimmed (getPathsThroughPoints trimmed leafs) = Inr []
       \<and> viaPointsOnOffsetPoly cl pathList viaOffset viaPitch offsetPoly = Inr []"
proof -
  have e: "getPathsThroughPoints trimmed leafs = []"
    using assms(3) by (rule getPathsThroughPoints_empty)
  show ?thesis
    using assms(1,2) by (simp add: e splitPathByPaths_nil viaPointsOnOffsetPoly_def py_get_0 Let_def)
qed

section \<open>Cumulative distances and interpolation\<close>


lemma length_cumDist_loop: "length (cumDist_loop acc prev ps) = length ps"
  by (induction ps arbitrary: acc prev) (simp_all add: Let_def)

lemma length_getPathCumDist: "pth \<noteq> [] \<Longrightarrow> length (getPathCumDist pth) = length pth"
  by (cases pth) (simp_all add: getPathCumDist_def length_cumDist_loop)

lemma getPathCumDist_nonempty: "getPathCumDist pth \<noteq> []"
  by (cases pth) (simp_all add: getPathCumDist_def)

lemma cumDist_loop_strict:
  "distinct_adj (prev # ps) \<Longrightarrow> sorted_wrt (<) (acc # cumDist_loop acc prev ps)"
proof (induction ps arbitrary: acc prev)
  case Nil
  then show ?case by simp
next
  case (Cons p ps)
  then have ne: "p \<noteq> prev" and da: "distinct_adj (p # ps)" by auto
  define d where "d = acc + lineLength p prev"
  have lt: "acc < d" using ne by (simp add: d_def lineLength_pos_iff)
  have ih: "sorted_wrt (<) (d # cumDist_loop d p ps)" using Cons.IH[OF da] .
  then have "\<forall>y\<in>set (cumDist_loop d p ps). acc < y" using lt by auto
  then show ?case using ih lt by (simp add: Let_def d_def[symmetric])
qed

lemma cumDist_loop_sorted:
  "sorted_wrt (\<le>) (acc # cumDist_loop acc prev ps)"
proof (induction ps arbitrary: acc prev)
  case Nil
  then show ?case by simp
next
  case (Cons p ps)
  define d where "d = acc + lineLength p prev"
  have lt: "acc \<le> d" by (simp add: d_def lineLength_nonneg)
  have ih: "sorted_wrt (\<le>) (d # cumDist_loop d p ps)" using Cons.IH .
  then have "\<forall>y\<in>set (cumDist_loop d p ps). acc \<le> y" using lt by auto
  then show ?case using ih lt by (simp add: Let_def d_def[symmetric])
qed

lemma getPathCumDist_strict: "distinct_adj pth \<Longrightarrow> sorted_wrt (<) (getPathCumDist pth)"
proof (cases pth)
  case Nil
  then show ?thesis by (simp add: getPathCumDist_def)
next
  case (Cons p ps)
  assume "distinct_adj pth"
  then have "sorted_wrt (<) (0 # cumDist_loop 0 p ps)"
    unfolding Cons by (rule cumDist_loop_strict)
  then show ?thesis unfolding Cons getPathCumDist_def by simp
qed

lemma getPathCumDist_sorted: "sorted (getPathCumDist pth)"
proof (cases pth)
  case Nil
  then show ?thesis by (simp add: getPathCumDist_def)
next
  case (Cons p ps)
  have "sorted_wrt (\<le>) (0 # cumDist_loop 0 p ps)"
    by (rule cumDist_loop_sorted)
  then show ?thesis unfolding Cons getPathCumDist_def by simp
qed

lemma getPathCumDist_0: "getPathCumDist pth ! 0 = 0"
  by (cases pth) (simp_all add: getPathCumDist_def)

lemma last_getPathCumDist_nonneg: "0 \<le> last (getPathCumDist pth)"
proof -
  have "sorted (getPathCumDist pth)" by (rule getPathCumDist_sorted)
  then have "getPathCumDist pth ! 0 \<le> getPathCumDist pth ! (length (getPathCumDist pth) - 1)"
    using getPathCumDist_nonempty[of pth] by (intro sorted_nth_mono) auto
  then show ?thesis
    using getPathCumDist_nonempty[of pth] by (simp add: getPathCumDist_0 last_conv_nth)
qed

lemma mk_slopes_ok:
  "length yl = length xl \<Longrightarrow> distinct_adj xl \<Longrightarrow>
     \<exists>s. mk_slopes xl yl = Inr s \<and> length s = length xl - 1
        \<and> (\<forall>i. Suc i < length xl \<longrightarrow> s ! i = (yl ! Suc i - yl ! i) / (xl ! Suc i - xl ! i))"
proof (induction xl yl rule: mk_slopes.induct)
  case (1 x1 x2 xs y1 y2 ys)
  then have ne: "x1 \<noteq> x2" and da: "distinct_adj (x2 # xs)" and len: "length (y2 # ys) = length (x2 # xs)"
    by auto
  have "x2 - x1 \<noteq> 0" using ne by simp
  from 1(1)[OF this len da] obtain s where s: "mk_slopes (x2 # xs) (y2 # ys) = Inr s"
    "length s = length (x2 # xs) - 1"
    "\<forall>i. Suc i < length (x2 # xs) \<longrightarrow> s ! i = ((y2 # ys) ! Suc i - (y2 # ys) ! i) / ((x2 # xs) ! Suc i - (x2 # xs) ! i)"
    by blast
  let ?s = "(y2 - y1) / (x2 - x1) # s"
  have a: "mk_slopes (x1 # x2 # xs) (y1 # y2 # ys) = Inr ?s" using ne s(1) by simp
  have b: "length ?s = length (x1 # x2 # xs) - 1" using s(2) by simp
  have c: "\<forall>i. Suc i < length (x1 # x2 # xs) \<longrightarrow>
     ?s ! i = ((y1 # y2 # ys) ! Suc i - (y1 # y2 # ys) ! i) / ((x1 # x2 # xs) ! Suc i - (x1 # x2 # xs) ! i)"
  proof (intro allI impI)
    fix i assume i: "Suc i < length (x1 # x2 # xs)"
    show "?s ! i = ((y1 # y2 # ys) ! Suc i - (y1 # y2 # ys) ! i) / ((x1 # x2 # xs) ! Suc i - (x1 # x2 # xs) ! i)"
    proof (cases i)
      case 0
      then show ?thesis by simp
    next
      case (Suc j)
      then have "Suc j < length (x2 # xs)" using i by simp
      then show ?thesis using s(3) Suc by simp
    qed
  qed
  show ?case using a b c by blast
qed (auto simp add: less_Suc_eq_0_disj)


lemma strict_sorted_distinct_adj: "sorted_wrt (<) (xs :: real list) \<Longrightarrow> distinct_adj xs"
  by (induction xs) (auto simp add: distinct_adj_Cons)

lemma bisect_left_bounds:
  assumes "xl \<noteq> []" and "xl ! 0 < v" and "v \<le> last xl"
  shows "0 < bisect_left xl v" and "bisect_left xl v < length xl"
    and "xl ! (bisect_left xl v - 1) < v" and "v \<le> xl ! bisect_left xl v"
proof -
  let ?P = "\<lambda>e. e < v"
  let ?k = "length (takeWhile ?P xl)"
  obtain a as where xl: "xl = a # as" using assms(1) by (cases xl) auto
  show pos: "0 < bisect_left xl v"
    using assms(2) by (simp add: bisect_left_def xl)
  have "\<not> ?P (last xl)" using assms(3) by simp
  moreover have "last xl \<in> set xl" using assms(1) by simp
  ultimately have "takeWhile ?P xl \<noteq> xl"
    by (metis takeWhile_eq_all_conv)
  moreover have "takeWhile ?P xl = take ?k xl"
    by (rule takeWhile_eq_take)
  ultimately have "?k \<noteq> length xl"
    by (metis take_all order_refl)
  moreover have "?k \<le> length xl" by (rule length_takeWhile_le)
  ultimately have lt: "?k < length xl" by simp
  then show "bisect_left xl v < length xl" by (simp add: bisect_left_def)
  have "\<not> ?P (xl ! ?k)" using lt by (rule nth_length_takeWhile)
  then show "v \<le> xl ! bisect_left xl v" by (simp add: bisect_left_def)
  have k: "?k - 1 < ?k" using pos by (simp add: bisect_left_def)
  then have "takeWhile ?P xl ! (?k - 1) \<in> set (takeWhile ?P xl)" by (rule nth_mem)
  then have "?P (takeWhile ?P xl ! (?k - 1))" by (rule set_takeWhileD[THEN conjunct2])
  moreover have "takeWhile ?P xl ! (?k - 1) = xl ! (?k - 1)" using k by (rule takeWhile_nth)
  ultimately show "xl ! (bisect_left xl v - 1) < v" by (simp add: bisect_left_def)
qed

lemma bisect_left_beyond:
  assumes "\<forall>e\<in>set xl. e < v"
  shows "bisect_left xl v = length xl"
proof -
  have "takeWhile (\<lambda>e. e < v) xl = xl"
    using assms by (induction xl) simp_all
  then show ?thesis unfolding bisect_left_def by (simp only:)
qed

lemma py_get_nat: "i < length xs \<Longrightarrow> py_get xs (int i) = Inr (xs ! i)"
  by (simp add: py_get_def)

lemma py_get_length: "py_get xs (int (length xs)) = Inl IndexError"
  by (simp add: py_get_def)

lemma bisect_left_segment:
  assumes "xl \<noteq> []" and "xl ! 0 < v" and "v \<le> last xl"
  shows "\<exists>i. Suc i = bisect_left xl v \<and> Suc i < length xl \<and> xl ! i < v \<and> v \<le> xl ! Suc i"
proof -
  define i where "i = bisect_left xl v - 1"
  have "Suc i = bisect_left xl v"
    using bisect_left_bounds(1)[OF assms] by (simp add: i_def)
  then show ?thesis
    using bisect_left_bounds(2,3,4)[OF assms] by (auto simp add: i_def)
qed

lemma LinearInterpolator_call_inside:
  assumes "length yl = length xl" and "length s = length xl - 1"
    and "\<forall>i. Suc i < length xl \<longrightarrow> s ! i = (yl ! Suc i - yl ! i) / (xl ! Suc i - xl ! i)"
    and "Suc i = bisect_left xl v" and "Suc i < length xl"
  shows "LinearInterpolator_call \<lparr>x_list = xl, y_list = yl, slopes = s\<rparr> v
     = Inr (yl ! i + (yl ! Suc i - yl ! i) / (xl ! Suc i - xl ! i) * (v - xl ! i))"
proof -
  have i: "i < length xl" "i < length s" "i < length yl"
    using assms(1,2,5) by simp_all
  have idx: "int (bisect_left xl v) - 1 = int i" using assms(4)[symmetric] by simp
  have si: "s ! i = (yl ! Suc i - yl ! i) / (xl ! Suc i - xl ! i)"
    using assms(3,5) by simp
  show ?thesis
    by (simp add: LinearInterpolator_call_def idx py_get_nat i si)
qed

lemma LinearInterpolator_call_beyond:
  assumes "length yl = length xl" and "length s = length xl - 1"
    and "xl \<noteq> []" and "\<forall>e\<in>set xl. e < v"
  shows "LinearInterpolator_call \<lparr>x_list = xl, y_list = yl, slopes = s\<rparr> v = Inl IndexError"
proof -
  have k: "bisect_left xl v = length xl" using assms(4) by (rule bisect_left_beyond)
  define m where "m = length xl - 1"
  have n: "0 < length xl" using assms(3) by simp
  have idx: "int (length xl) - 1 = int m" using n by (cases xl) (simp_all add: m_def)
  have a: "py_get yl (int m) = Inr (yl ! m)"
    using n assms(1) by (intro py_get_nat) (simp add: m_def)
  have b: "py_get s (int m) = Inl IndexError"
    using py_get_length[of s] assms(2) unfolding m_def by (simp only:)
  show ?thesis
    by (simp add: LinearInterpolator_call_def k idx a b)
qed

lemma PathInterpolator_init_ok:
  assumes "distinct_adj pth"
  shows "\<exists>sx sy. PathInterpolator_init (getPathCumDist pth) pth
           = Inr \<lparr>xInterp = \<lparr>x_list = getPathCumDist pth, y_list = map fst pth, slopes = sx\<rparr>,
                  yInterp = \<lparr>x_list = getPathCumDist pth, y_list = map snd pth, slopes = sy\<rparr>\<rparr>
         \<and> length sx = length (getPathCumDist pth) - 1 \<and> length sy = length (getPathCumDist pth) - 1
         \<and> (\<forall>i. Suc i < length pth \<longrightarrow>
               sx ! i = (fst (pth ! Suc i) - fst (pth ! i))
                          / (getPathCumDist pth ! Suc i - getPathCumDist pth ! i)
             \<and> sy ! i = (snd (pth ! Suc i) - snd (pth ! i))
                          / (getPathCumDist pth ! Suc i - getPathCumDist pth ! i))"
proof (cases "pth = []")
  case True
  then show ?thesis
    by (simp add: PathInterpolator_init_def LinearInterpolator_init_def getPathCumDist_def)
next
  case False
  let ?c = "getPathCumDist pth"
  have len: "length ?c = length pth" using False by (rule length_getPathCumDist)
  have da: "distinct_adj ?c"
    using assms by (intro strict_sorted_distinct_adj getPathCumDist_strict)
  have lx: "length (map fst pth) = length ?c" and ly: "length (map snd pth) = length ?c"
    using len by simp_all
  from mk_slopes_ok[OF lx da] obtain sx where sx: "mk_slopes ?c (map fst pth) = Inr sx"
    "length sx = length ?c - 1"
    "\<forall>i. Suc i < length ?c \<longrightarrow> sx ! i = (map fst pth ! Suc i - map fst pth ! i) / (?c ! Suc i - ?c ! i)"
    by blast
  from mk_slopes_ok[OF ly da] obtain sy where sy: "mk_slopes ?c (map snd pth) = Inr sy"
    "length sy = length ?c - 1"
    "\<forall>i. Suc i < length ?c \<longrightarrow> sy ! i = (map snd pth ! Suc i - map snd pth ! i) / (?c ! Suc i - ?c ! i)"
    by blast
  have "\<forall>i. Suc i < length pth \<longrightarrow>
               sx ! i = (fst (pth ! Suc i) - fst (pth ! i)) / (?c ! Suc i - ?c ! i)
             \<and> sy ! i = (snd (pth ! Suc i) - snd (pth ! i)) / (?c ! Suc i - ?c ! i)"
    using sx(3) sy(3) len by simp
  then show ?thesis
    using sx(1,2) sy(1,2)
    by (simp add: PathInterpolator_init_def LinearInterpolator_init_def)
qed

lemma interpolate_inside:
  assumes "distinct_adj pth" and "0 < d" and "d \<le> last (getPathCumDist pth)"
  shows "\<exists>i. Suc i < length pth \<and> getPathCumDist pth ! i < d \<and> d \<le> getPathCumDist pth ! Suc i
     \<and> interpolate pth d
       = Inr (fst (pth ! i) + (fst (pth ! Suc i) - fst (pth ! i))
                                / (getPathCumDist pth ! Suc i - getPathCumDist pth ! i)
                                * (d - getPathCumDist pth ! i),
              snd (pth ! i) + (snd (pth ! Suc i) - snd (pth ! i))
                                / (getPathCumDist pth ! Suc i - getPathCumDist pth ! i)
                                * (d - getPathCumDist pth ! i))"
proof -
  let ?c = "getPathCumDist pth"
  have ne: "pth \<noteq> []"
    using assms(2,3) by (auto simp add: getPathCumDist_def)
  have len: "length ?c = length pth" using ne by (rule length_getPathCumDist)
  have c0: "?c ! 0 < d" using assms(2) by (simp add: getPathCumDist_0)
  from bisect_left_segment[OF getPathCumDist_nonempty c0 assms(3)]
  obtain i where i: "Suc i = bisect_left ?c d" "Suc i < length ?c" "?c ! i < d" "d \<le> ?c ! Suc i"
    by blast
  from PathInterpolator_init_ok[OF assms(1)] obtain sx sy where
    init: "PathInterpolator_init ?c pth
           = Inr \<lparr>xInterp = \<lparr>x_list = ?c, y_list = map fst pth, slopes = sx\<rparr>,
                  yInterp = \<lparr>x_list = ?c, y_list = map snd pth, slopes = sy\<rparr>\<rparr>"
    and lsx: "length sx = length ?c - 1" and lsy: "length sy = length ?c - 1"
    and sl: "\<forall>i. Suc i < length pth \<longrightarrow>
               sx ! i = (fst (pth ! Suc i) - fst (pth ! i)) / (?c ! Suc i - ?c ! i)
             \<and> sy ! i = (snd (pth ! Suc i) - snd (pth ! i)) / (?c ! Suc i - ?c ! i)"
    by blast
  have slx: "\<forall>i. Suc i < length ?c \<longrightarrow> sx ! i = (map fst pth ! Suc i - map fst pth ! i) / (?c ! Suc i - ?c ! i)"
    using sl len by simp
  have sly: "\<forall>i. Suc i < length ?c \<longrightarrow> sy ! i = (map snd pth ! Suc i - map snd pth ! i) / (?c ! Suc i - ?c ! i)"
    using sl len by simp
  have lx: "length (map fst pth) = length ?c" and ly: "length (map snd pth) = length ?c"
    using len by simp_all
  have ip: "i < length pth" "Suc i < length pth" using i(2) len by simp_all
  have cx: "LinearInterpolator_call \<lparr>x_list = ?c, y_list = map fst pth, slopes = sx\<rparr> d
     = Inr (fst (pth ! i) + (fst (pth ! Suc i) - fst (pth ! i)) / (?c ! Suc i - ?c ! i) * (d - ?c ! i))"
    using LinearInterpolator_call_inside[OF lx lsx slx i(1,2)] ip by simp
  have cy: "LinearInterpolator_call \<lparr>x_list = ?c, y_list = map snd pth, slopes = sy\<rparr> d
     = Inr (snd (pth ! i) + (snd (pth ! Suc i) - snd (pth ! i)) / (?c ! Suc i - ?c ! i) * (d - ?c ! i))"
    using LinearInterpolator_call_inside[OF ly lsy sly i(1,2)] ip by simp
  have "interpolate pth d
       = Inr (fst (pth ! i) + (fst (pth ! Suc i) - fst (pth ! i)) / (?c ! Suc i - ?c ! i) * (d - ?c ! i),
              snd (pth ! i) + (snd (pth ! Suc i) - snd (pth ! i)) / (?c ! Suc i - ?c ! i) * (d - ?c ! i))"
    unfolding interpolate_def init PathInterpolator_call_def by (simp add: cx cy)
  then show ?thesis using ip(2) i(3,4) by blast
qed

lemma interpolate_beyond:
  assumes "distinct_adj pth" and "pth \<noteq> []" and "last (getPathCumDist pth) < d"
  shows "interpolate pth d = Inl IndexError"
proof -
  let ?c = "getPathCumDist pth"
  have len: "length ?c = length pth" using assms(2) by (rule length_getPathCumDist)
  from PathInterpolator_init_ok[OF assms(1)] obtain sx sy where
    init: "PathInterpolator_init ?c pth
           = Inr \<lparr>xInterp = \<lparr>x_list = ?c, y_list = map fst pth, slopes = sx\<rparr>,
                  yInterp = \<lparr>x_list = ?c, y_list = map snd pth, slopes = sy\<rparr>\<rparr>"
    and lsx: "length sx = length ?c - 1"
    by blast
  have "\<forall>e\<in>set ?c. e \<le> last ?c"
  proof
    fix e assume "e \<in> set ?c"
    then obtain j where j: "j < length ?c" "e = ?c ! j" by (auto simp add: in_set_conv_nth)
    have "?c ! j \<le> ?c ! (length ?c - 1)"
      using getPathCumDist_sorted j(1) by (intro sorted_nth_mono) auto
    then show "e \<le> last ?c"
      using j(2) getPathCumDist_nonempty[of pth] by (simp add: last_conv_nth)
  qed
  then have all: "\<forall>e\<in>set ?c. e < d" using assms(3) by auto
  have lx: "length (map fst pth) = length ?c" using len by simp
  have "LinearInterpolator_call \<lparr>x_list = ?c, y_list = map fst pth, slopes = sx\<rparr> d = Inl IndexError"
    using LinearInterpolator_call_beyond[OF lx lsx getPathCumDist_nonempty all] .
  then show ?thesis
    unfolding interpolate_def init PathInterpolator_call_def by simp
qed

lemma hypot_axis: "hypot a 0 = \<bar>a\<bar>" "hypot 0 b = \<bar>b\<bar>"
  by (simp_all add: hypot_def)


lemma distributeAlongPath_short:
  assumes "distinct_adj pth" and "last (getPathCumDist pth) < p"
  shows "distributeAlongPath pth p = Inr []"
proof -
  let ?L = "last (getPathCumDist pth)"
  from PathInterpolator_init_ok[OF assms(1)] obtain ptInterp where
    init: "PathInterpolator_init (getPathCumDist pth) pth = Inr ptInterp" by blast
  have L0: "0 \<le> ?L" by (rule last_getPathCumDist_nonneg)
  then have p: "0 < p" using assms(2) by simp
  have "0 \<le> ?L / p" "?L / p < 1" using L0 assms(2) p by simp_all
  then have "\<lfloor>?L / p\<rfloor> = 0" by linarith
  then show ?thesis using p by (simp add: distributeAlongPath_def Let_def init)
qed

lemma distributeAlongPath_negative:
  assumes "distinct_adj pth" and "p < 0"
  shows "distributeAlongPath pth p = Inr []"
proof -
  let ?L = "last (getPathCumDist pth)"
  from PathInterpolator_init_ok[OF assms(1)] obtain ptInterp where
    init: "PathInterpolator_init (getPathCumDist pth) pth = Inr ptInterp" by blast
  have L0: "0 \<le> ?L" by (rule last_getPathCumDist_nonneg)
  have "?L / p \<le> 0" using L0 assms(2) by (simp add: divide_nonneg_neg)
  then have "\<lfloor>?L / p\<rfloor> \<le> 0" by linarith
  then have "[1 .. \<lfloor>?L / p\<rfloor> - 1] = []" by simp
  then show ?thesis using assms(2) by (simp add: distributeAlongPath_def Let_def init)
qed


lemma cum_bent: "getPathCumDist [(0, 0), (10, 0), (10, 10)] = [0, 10, 20]"
  by (simp add: getPathCumDist_def lineLength_def hypot_axis)

lemma cum_straight: "getPathCumDist [(0, 0), (10, 0)] = [0, 10]"
  by (simp add: getPathCumDist_def lineLength_def hypot_axis)

lemma cum_stalled: "getPathCumDist [(0, 0), (0, 0), (10, 0)] = [0, 0, 10]"
  by (simp add: getPathCumDist_def lineLength_def hypot_axis)

text \<open>
  C3 (amended). On a path of at least two vertices without a zero-length segment the
  interpolation returns a point for every distance \<open>d\<close> with \<open>0 < d \<le> total\<close>: the point at
  fraction \<open>t\<close> of the segment that contains \<open>d\<close>. At the total length it is the last
  vertex. There is no clamp: a larger distance raises \<^verbatim>\<open>IndexError\<close>.
\<close>

theorem interpolate_in_range:
  assumes "2 \<le> length pth" and "distinct_adj pth"
  shows "(\<forall>d. 0 < d \<and> d \<le> last (getPathCumDist pth) \<longrightarrow>
            (\<exists>i t. Suc i < length pth \<and> 0 < t \<and> t \<le> 1
               \<and> d = getPathCumDist pth ! i
                      + t * (getPathCumDist pth ! Suc i - getPathCumDist pth ! i)
               \<and> interpolate pth d
                   = Inr (fst (pth ! i) + t * (fst (pth ! Suc i) - fst (pth ! i)),
                          snd (pth ! i) + t * (snd (pth ! Suc i) - snd (pth ! i)))))
       \<and> interpolate pth (last (getPathCumDist pth)) = Inr (last pth)
       \<and> (\<forall>d. last (getPathCumDist pth) < d \<longrightarrow> interpolate pth d = Inl IndexError)"
proof -
  let ?c = "getPathCumDist pth"
  have ne: "pth \<noteq> []" using assms(1) by auto
  have len: "length ?c = length pth" using ne by (rule length_getPathCumDist)
  have strict: "sorted_wrt (<) ?c" using assms(2) by (rule getPathCumDist_strict)
  have inside: "\<exists>i t. Suc i < length pth \<and> 0 < t \<and> t \<le> 1
               \<and> d = ?c ! i + t * (?c ! Suc i - ?c ! i)
               \<and> interpolate pth d
                   = Inr (fst (pth ! i) + t * (fst (pth ! Suc i) - fst (pth ! i)),
                          snd (pth ! i) + t * (snd (pth ! Suc i) - snd (pth ! i)))"
    if d: "0 < d" "d \<le> last ?c" for d
  proof -
    from interpolate_inside[OF assms(2) d] obtain i where i: "Suc i < length pth"
      "?c ! i < d" "d \<le> ?c ! Suc i"
      and val: "interpolate pth d
       = Inr (fst (pth ! i) + (fst (pth ! Suc i) - fst (pth ! i)) / (?c ! Suc i - ?c ! i) * (d - ?c ! i),
              snd (pth ! i) + (snd (pth ! Suc i) - snd (pth ! i)) / (?c ! Suc i - ?c ! i) * (d - ?c ! i))"
      by blast
    define t where "t = (d - ?c ! i) / (?c ! Suc i - ?c ! i)"
    have pos: "0 < ?c ! Suc i - ?c ! i" using i(2,3) by simp
    have t: "0 < t" "t \<le> 1" using pos i(2,3) by (simp_all add: t_def)
    have dd: "d = ?c ! i + t * (?c ! Suc i - ?c ! i)" using pos by (simp add: t_def)
    have "interpolate pth d
                   = Inr (fst (pth ! i) + t * (fst (pth ! Suc i) - fst (pth ! i)),
                          snd (pth ! i) + t * (snd (pth ! Suc i) - snd (pth ! i)))"
      unfolding val t_def by (simp add: mult.commute)
    then show ?thesis using i(1) t dd by blast
  qed
  have lastc: "last ?c = ?c ! (length pth - 1)"
    using getPathCumDist_nonempty[of pth] len by (simp add: last_conv_nth)
  have "?c ! 0 < ?c ! (length pth - 1)"
    using strict assms(1) len by (intro sorted_wrt_nth_less[where P="(<)"]) auto
  then have Lpos: "0 < last ?c" by (simp add: lastc getPathCumDist_0)
  from interpolate_inside[OF assms(2) Lpos order_refl] obtain i where i: "Suc i < length pth"
      "?c ! i < last ?c" "last ?c \<le> ?c ! Suc i"
      and val: "interpolate pth (last ?c)
       = Inr (fst (pth ! i) + (fst (pth ! Suc i) - fst (pth ! i)) / (?c ! Suc i - ?c ! i) * (last ?c - ?c ! i),
              snd (pth ! i) + (snd (pth ! Suc i) - snd (pth ! i)) / (?c ! Suc i - ?c ! i) * (last ?c - ?c ! i))"
    by blast
  have "Suc i = length pth - 1"
  proof (rule ccontr)
    assume "Suc i \<noteq> length pth - 1"
    then have "Suc i < length pth - 1" using i(1) by simp
    then have "?c ! Suc i < ?c ! (length pth - 1)"
      using strict len by (intro sorted_wrt_nth_less[where P="(<)"]) auto
    then show False using i(3) by (simp add: lastc)
  qed
  then have e: "?c ! Suc i = last ?c" "pth ! Suc i = last pth"
    using ne by (simp_all add: lastc last_conv_nth)
  have pos: "last ?c - ?c ! i \<noteq> 0" using i(2) by simp
  have atlast: "interpolate pth (last ?c) = Inr (last pth)"
    unfolding val e using pos by (simp add: prod_eq_iff)
  have beyond: "\<forall>d. last ?c < d \<longrightarrow> interpolate pth d = Inl IndexError"
    using interpolate_beyond[OF assms(2) ne] by blast
  show ?thesis using inside atlast beyond by blast
qed

theorem interpolate_in_range_witness:
  "2 \<le> length ([(0, 0), (10, 0), (10, 10)] :: path) \<and> distinct_adj ([(0, 0), (10, 0), (10, 10)] :: path)
   \<and> (0::real) < 20 \<and> (20::real) \<le> last (getPathCumDist [(0, 0), (10, 0), (10, 10)])
   \<and> interpolate [(0, 0), (10, 0), (10, 10)] 20 = Inr (10, 10)
   \<and> (20::real) < 25 \<and> interpolate [(0, 0), (10, 0), (10, 10)] 25 = Inl IndexError"
proof -
  have h1: "2 \<le> length ([(0, 0), (10, 0), (10, 10)] :: path)" by simp
  have h2: "distinct_adj ([(0, 0), (10, 0), (10, 10)] :: path)" by simp
  show ?thesis
    using h1 h2 interpolate_in_range[OF h1 h2] by (simp add: cum_bent)
qed

text \<open>
  On the path (0,0), (10,0), (10,10) of length 20 the distance 25 raises, the distances 0
  and -5 extrapolate the last segment backwards instead of returning the first vertex,
  and a path with a repeated vertex cannot be interpolated at all.
\<close>

theorem interpolate_clamp_counterexample:
  "interpolate [(0, 0), (10, 0), (10, 10)] 25 = Inl IndexError
   \<and> interpolate [(0, 0), (10, 0), (10, 10)] 0 = Inr (10, - 10)
   \<and> interpolate [(0, 0), (10, 0), (10, 10)] (- 5) = Inr (10, - 15)
   \<and> interpolate [(0, 0), (0, 0), (10, 0)] 5 = Inl ZeroDivisionError"
  by (simp add: interpolate_def cum_bent cum_stalled PathInterpolator_init_def
      LinearInterpolator_init_def PathInterpolator_call_def LinearInterpolator_call_def
      bisect_left_def py_get_def)



section \<open>Malformed inputs and parameters\<close>

lemma getPathsThroughPoints_empty_iff:
  "getPathsThroughPoints trimmed leafs = [] \<longleftrightarrow>
     (\<forall>v<length trimmed. \<forall>p\<in>set leafs.
        \<not> isPointOnLine p (trimmed ! v) (trimmed ! ((v + 1) mod length trimmed)))"
  by (auto simp add: getPathsThroughPoints_def filter_empty_conv list_ex_iff)

lemma box_no_butt:
  "getPathsThroughPoints [(- 5, - 5), (15, - 5), (15, 5), (- 5, 5)] [(0, 0), (10, 0)] = []"
  by (simp add: getPathsThroughPoints_def isPointOnLine_def upt_conv_Cons)

theorem no_butt_line_no_candidates_witness:
  "getLeafVertices (getPathsInsidePolygon boxClipper [[(0, 0), (10, 0)]]
                      [(- 5, - 5), (15, - 5), (15, 5), (- 5, 5)])
     = Inr ([(0, 0), (10, 0)], [0, pi])
   \<and> trimFlushPolygonAtVertices boxClipper [(- 5, - 5), (15, - 5), (15, 5), (- 5, 5)]
        [(0, 0), (10, 0)] [0, pi] (11 / 10 * 5)
     = [(- 5, - 5), (15, - 5), (15, 5), (- 5, 5)] # []
   \<and> getPathsThroughPoints [(- 5, - 5), (15, - 5), (15, 5), (- 5, 5)] [(0, 0), (10, 0)] = []
   \<and> viaPointsOnOffsetPoly boxClipper [[(0, 0), (10, 0)]] 5 3
        [(- 5, - 5), (15, - 5), (15, 5), (- 5, 5)] = Inr []"
proof -
  let ?box = "[(- 5, - 5), (15, - 5), (15, 5), (- 5, 5)] :: path"
  let ?leafs = "[(0, 0), (10, 0)] :: point list"
  have h1: "getLeafVertices (getPathsInsidePolygon boxClipper [[(0, 0), (10, 0)]] ?box)
     = Inr (?leafs, [0, pi])"
    by (simp add: getPathsInsidePolygon_def isPointInPolygon_def boxClipper_def
        getLeafVertices_def leafVertex_at_def py_get_def getLineSlope_def atan2_def)
  have h2: "trimFlushPolygonAtVertices boxClipper ?box ?leafs [0, pi] (11 / 10 * 5) = ?box # []"
    by (simp add: trimFlushPolygonAtVertices_def clipPolygonWithPolygons_def boxClipper_def Let_def)
  have h3: "\<forall>v<length ?box. \<forall>p\<in>set ?leafs.
        \<not> isPointOnLine p (?box ! v) (?box ! ((v + 1) mod length ?box))"
    using box_no_butt by (simp only: getPathsThroughPoints_empty_iff)
  show ?thesis
    using h1 h2 no_butt_line_no_candidates[OF h1 h2 h3, of 3] by simp
qed






text \<open>
  C6 (amended). Pitch and offset are not validated. Whatever their sign, a run whose
  offsetting yields no polygon returns the empty list; a pitch of 0 raises
  \<^verbatim>\<open>ZeroDivisionError\<close> only where a sub-path is distributed; a negative pitch raises
  nothing, each sub-path then getting no interior candidate.
\<close>

theorem generateViaFence_no_validation:
  "(removeZeroLength pathList0 = Inr pathList \<and> Offset_Execute cl pathList viaOffset = [] \<longrightarrow>
      generateViaFence cl pathList0 viaOffset viaPitch = Inr [])
   \<and> distributeAlongPath pth 0 = Inl ZeroDivisionError
   \<and> (distinct_adj pth \<and> viaPitch < 0 \<longrightarrow> distributeAlongPath pth viaPitch = Inr [])"
  using generateViaFence_no_polygon[of pathList0 pathList cl viaOffset viaPitch]
    distributeAlongPath_negative[of pth viaPitch]
  by (simp add: distributeAlongPath_def)

theorem generateViaFence_no_validation_witness:
  "removeZeroLength [] = Inr [] \<and> Offset_Execute boxClipper [] (- 1) = []
   \<and> generateViaFence boxClipper [] (- 1) (- 3) = Inr []
   \<and> distinct_adj ([(0, 0), (10, 0)] :: path) \<and> (- 3 :: real) < 0
   \<and> distributeAlongPath [(0, 0), (10, 0)] (- 3) = Inr []
   \<and> distributeAlongPath [(0, 0), (10, 0)] 0 = Inl ZeroDivisionError"
  using generateViaFence_no_validation[of "[]" "[]" boxClipper "- 1" "- 3" "[(0, 0), (10, 0)]"]
  by (simp add: boxClipper_def)

text \<open>
  With an empty path list a pitch and an offset of 0, or negative ones, give the empty
  result and no error, and a negative pitch on a straight sub-path gives no candidate.
\<close>

theorem parameter_rejection_counterexample:
  "generateViaFence boxClipper [] 0 0 = Inr []
   \<and> generateViaFence boxClipper [] (- 1) (- 3) = Inr []
   \<and> distributeAlongPath [(0, 0), (10, 0)] (- 3) = Inr []"
  by (simp add: generateViaFence_def expandPathsToPolygons_def boxClipper_def
      distributeAlongPath_def cum_straight PathInterpolator_init_def LinearInterpolator_init_def)

section \<open>Properties of the deduplication\<close>
















section \<open>Sharp junctions\<close>

lemma arctan_le_self: "0 \<le> x \<Longrightarrow> arctan x \<le> x"
proof -
  assume x: "0 \<le> x"
  have "(\<lambda>t. t - arctan t) 0 \<le> (\<lambda>t. t - arctan t) x"
  proof (rule DERIV_nonneg_imp_nondecreasing[OF x])
    fix t :: real
    have "((\<lambda>t. t - arctan t) has_real_derivative (1 - inverse (1 + t\<^sup>2))) (at t)"
      by (auto intro!: derivative_eq_intros)
    moreover have "inverse (1 + t\<^sup>2) \<le> 1"
      by (simp add: inverse_le_1_iff)
    ultimately show "\<exists>y. ((\<lambda>t. t - arctan t) has_real_derivative y) (at t) \<and> 0 \<le> y"
      by (intro exI[of _ "1 - inverse (1 + t\<^sup>2)"]) simp
  qed
  then show ?thesis by simp
qed

lemma arctan_hundredth: "0 < arctan (1 / 100)" "arctan (1 / 100) < pi / 18"
proof -
  show "0 < arctan (1 / 100)" by simp
  have "arctan (1 / 100) \<le> 1 / 100" by (rule arctan_le_self) simp
  moreover have "(1 / 100 :: real) < pi / 18" using pi_ge_two by simp
  ultimately show "arctan (1 / 100) < pi / 18" by simp
qed

lemma deviation_hairpin: "deviationAngle [(0, 0), (100, 0), (0, 1)] 1 = arctan (1 / 100) - pi"
proof -
  have a: "getLineSlope (0, 1) (100, 0) = pi - arctan (1 / 100)"
    by (simp add: getLineSlope_def atan2_def arctan_minus)
  have b: "getLineSlope (0, 0) (100, 0) = pi"
    by (simp add: getLineSlope_def atan2_def)
  have "\<bar>(pi - arctan (1 / 100)) - pi\<bar> = arctan (1 / 100)"
    using arctan_hundredth(1) by simp
  then show ?thesis
    by (simp add: deviationAngle_def a b)
qed

lemma abs_deviation_hairpin: "\<bar>deviationAngle [(0, 0), (100, 0), (0, 1)] 1\<bar> = pi - arctan (1 / 100)"
  unfolding deviation_hairpin using arctan_hundredth pi_ge_two by simp

lemma vertices_hairpin: "getPathVertices [(0, 0), (100, 0), (0, 1)] 20 = [1]"
proof -
  have "20 * pi / 180 < pi - arctan (1 / 100)"
    using arctan_hundredth(2) pi_ge_two by simp
  then have "20 * pi / 180 < \<bar>deviationAngle [(0, 0), (100, 0), (0, 1)] 1\<bar>"
    unfolding abs_deviation_hairpin .
  then show ?thesis
    by (simp add: getPathVertices_def)
qed

lemma hairpin_second_leg: "last (getPathCumDist [(100, 0), (0, 1)]) < 1000"
proof -
  have "sqrt 10001 < sqrt (1000 * 1000)" by (simp only: real_sqrt_less_iff)
  then show ?thesis
    by (simp add: getPathCumDist_def lineLength_def hypot_def)
qed

lemma deviation_zigzag:
  "\<bar>deviationAngle [(0, 0), (10, 0), (10, 10), (20, 10)] 1\<bar> = pi / 2"
  "\<bar>deviationAngle [(0, 0), (10, 0), (10, 10), (20, 10)] 2\<bar> = pi / 2"
  by (simp_all add: deviationAngle_def getLineSlope_def atan2_def)

text \<open>
  C2. A fence path with a single bend of more than 170 degrees: the bend is found by
  \<^verbatim>\<open>getPathVertices\<close>, \<^verbatim>\<open>filterSharpJunctions\<close> returns a list of fewer than two indices
  unchanged, and the bend point is emitted as a via anchor between the first and the
  last vertex. On a path with two right-angle bends both are removed.
\<close>

theorem single_sharp_bend_kept:
  "170 * pi / 180 < \<bar>deviationAngle [(0, 0), (100, 0), (0, 1)] 1\<bar>
   \<and> getPathVertices [(0, 0), (100, 0), (0, 1)] 20 = [1]
   \<and> filterSharpJunctions [(0, 0), (100, 0), (0, 1)] [1] = [1]
   \<and> viaPointsOnFencePath [(0, 0), (100, 0), (0, 1)] 1000 = Inr [(0, 0), (100, 0), (0, 1)]
   \<and> getPathVertices [(0, 0), (10, 0), (10, 10), (20, 10)] 20 = [1, 2]
   \<and> filterSharpJunctions [(0, 0), (10, 0), (10, 10), (20, 10)] [1, 2] = []"
proof -
  have a: "170 * pi / 180 < \<bar>deviationAngle [(0, 0), (100, 0), (0, 1)] 1\<bar>"
    unfolding abs_deviation_hairpin using arctan_hundredth(2) by simp
  have b: "filterSharpJunctions [(0, 0), (100, 0), (0, 1)] [1] = [1]"
    by (simp add: filterSharpJunctions_def)
  have s: "splitPathByPoints [(0, 0), (100, 0), (0, 1 :: real)] [0, 1, - 1]
             = Inr [[(0, 0), (100, 0)], [(100, 0), (0, 1)]]"
    by (simp add: splitPathByPoints_def getSubPaths_def getSubPath_def py_get_def upt_conv_Cons
        upto_rec1)
  have d1: "distributeAlongPath [(0, 0), (100, 0)] 1000 = Inr []"
    by (rule distributeAlongPath_short) (simp_all add: getPathCumDist_def lineLength_def hypot_axis)
  have d2: "distributeAlongPath [(100, 0), (0, 1)] 1000 = Inr []"
    by (rule distributeAlongPath_short) (simp_all add: hairpin_second_leg)
  have c: "viaPointsOnFencePath [(0, 0), (100, 0), (0, 1)] 1000 = Inr [(0, 0), (100, 0), (0, 1)]"
    by (simp add: viaPointsOnFencePath_def vertices_hairpin b s d1 d2 py_get_def)
  have z1: "\<bar>deviationAngle [(0, 0), (10, 0), (10, 10), (20, 10)] (Suc 0)\<bar> = pi / 2"
    using deviation_zigzag(1) by simp
  have z2: "\<bar>deviationAngle [(0, 0), (10, 0), (10, 10), (20, 10)] (Suc (Suc 0))\<bar> = pi / 2"
    using deviation_zigzag(2) by (simp add: numeral_2_eq_2)
  have e: "getPathVertices [(0, 0), (10, 0), (10, 10), (20, 10)] 20 = [1, 2]"
    by (simp add: getPathVertices_def z1 z2 upt_conv_Cons)
  have f: "filterSharpJunctions [(0, 0), (10, 0), (10, 10), (20, 10)] [1, 2] = []"
    by (simp add: filterSharpJunctions_def Let_def z1 z2 deviation_zigzag(2))
  show ?thesis using a vertices_hairpin b c e f by blast
qed

end
